theory Spec2Isabelle
  imports Main
begin

section \<open>The carousel component of macroscope-kiosk\<close>

text \<open>
  A shallow embedding of \<^verbatim>\<open>src/app/components/carousel/carousel.component.ts\<close>.
  The component is a class with mutable fields, so it becomes a record and every method
  a function from the record to the updated record. A method that can raise returns a
  sum: \<open>Inl\<close> carries the exception (with the state reached when it was raised, where
  the method had already mutated something), \<open>Inr\<close> the normal result.

  The component talks to four libraries that are not part of the repository. Their
  state is kept in the same record and their calls are small functions of their own:
  \<^item> the Swiper engine (\<open>activeIndex\<close>, \<open>slides\<close>, \<open>autoplay\<close>, \<open>slideToLoop\<close>);
  \<^item> Angular's \<open>ViewContainerRef\<close> (the list of host views it holds) and the
    rendered surface that \<open>querySelectorAll\<close> reads;
  \<^item> the RxJS \<open>Subject\<close> piped through \<open>distinctUntilChanged()\<close>, seen from the one
    subscriber of \<open>indexChange\<close>;
  \<^item> lodash's \<open>debounce\<close> with its default options, on a clock counted in
    milliseconds, and the event loop that fires its timer.
  Every call that reaches a library is also appended to a log of effects, so that the
  order of the calls can be stated.
\<close>

subsection \<open>Data\<close>

datatype error = TypeError

text \<open>
  Modelled from the spec: the template that renders the slides and writes their
  \<^verbatim>\<open>data-index\<close> attribute is not under src. The spec has every Slide Slot carry
  the logical index it represents, so \<open>data_index\<close> is the number that
  \<^verbatim>\<open>+root.dataset.index\<close> evaluates to. \<open>slot_id\<close> is the identity of the DOM node:
  loop duplicates are different nodes with the same \<open>data_index\<close>.
\<close>

record slot =
  slot_id :: nat
  data_index :: nat

text \<open>
  A component reference: \<open>cid\<close> is the identity of the created component (and of its
  host view and root node), \<open>iterationId\<close> the input of the item component, where
  \<open>None\<close> is JavaScript's \<^verbatim>\<open>undefined\<close>.
\<close>

record component =
  cid :: nat
  iterationId :: "int option"

datatype effect =
    ContainerRemove int
  | ComponentDestroy nat
  | QuerySlots
  | CreateComponent nat
  | SetData nat "int option"
  | ComponentDetectChanges nat
  | AppendChild nat nat
  | HostDetectChanges
  | AutoplayStop
  | AutoplayStart
  | SlideToLoop int "nat option"
  | Publish nat
  | Complete

text \<open>
  The closure of lodash's \<open>debounce\<close>, for the default options the component uses
  (\<open>leading = false\<close>, \<open>trailing = true\<close>, no \<open>maxWait\<close>). \<open>timerId\<close> holds the
  time at which the pending \<^verbatim>\<open>setTimeout\<close> is due; \<open>lastArgs\<close> says whether a call is
  waiting to be passed on.
\<close>

record debounced =
  wait :: nat
  timerId :: "nat option"
  lastCallTime :: "nat option"
  lastArgs :: bool

record carousel =
  ids :: "int list option"
  components :: "component list option"
  swiper :: bool
  reinitialize :: debounced
  isStopped :: bool
  lastKey :: "nat option"
  viewContainer :: "nat list"
  next_cid :: nat
  roots :: "slot list"
  activeIndex :: nat
  slides :: "slot list"
  autoplay :: bool
  now :: nat
  effects :: "effect list"

text \<open>
  \<open>ids\<close>, \<open>components\<close> and \<open>swiper\<close> are the fields of the class (\<open>None\<close> and
  \<open>False\<close> for \<^verbatim>\<open>undefined\<close>: the handle \<open>swiper\<close> is only ever tested and
  dereferenced). \<open>isStopped\<close> is the subject's flag and \<open>lastKey\<close> the key that
  \<open>distinctUntilChanged\<close> keeps for the subscriber. \<open>viewContainer\<close> lists the host
  views in the container, \<open>next_cid\<close> is the next fresh identity, \<open>roots\<close> the slide
  elements under the component's element, \<open>activeIndex\<close>, \<open>slides\<close> and \<open>autoplay\<close>
  the engine's state, \<open>now\<close> the clock.
\<close>

definition log :: "effect list \<Rightarrow> carousel \<Rightarrow> carousel" where
  "log es s = s\<lparr>effects := effects s @ es\<rparr>"

subsection \<open>Library calls\<close>

text \<open>\<^verbatim>\<open>xs[i]\<close> on a JavaScript array: \<^verbatim>\<open>undefined\<close> out of range, never an exception.\<close>

definition array_get :: "'a list \<Rightarrow> nat \<Rightarrow> 'a option" where
  "array_get xs i = (if i < length xs then Some (xs ! i) else None)"

text \<open>
  \<open>ViewContainerRef.indexOf\<close> answers \<open>-1\<close> for a view that is not in the container.
  \<open>ViewContainerRef.remove\<close> at an index of the container detaches and destroys that
  view. At any other index the container is left as it is, which is what Angular's view
  engine does for a negative index; the controller never gets there
  (\<open>destroy_removes_at_index\<close> below).
\<close>

fun vc_indexOf :: "nat list \<Rightarrow> nat \<Rightarrow> int" where
  "vc_indexOf [] v = -1"
| "vc_indexOf (x # xs) v =
     (if x = v then 0 else (let i = vc_indexOf xs v in if i < 0 then -1 else i + 1))"

definition vc_remove :: "int \<Rightarrow> nat list \<Rightarrow> nat list" where
  "vc_remove i vc =
     (if 0 \<le> i \<and> i < int (length vc) then take (nat i) vc @ drop (Suc (nat i)) vc else vc)"

text \<open>\<open>Subject.next\<close> followed by \<open>distinctUntilChanged\<close>, and \<open>Subject.complete\<close>.\<close>

definition subject_next :: "nat \<Rightarrow> carousel \<Rightarrow> carousel" where
  "subject_next v s =
     (if isStopped s then s
      else if lastKey s = Some v then s
      else log [Publish v] (s\<lparr>lastKey := Some v\<rparr>))"

definition subject_complete :: "carousel \<Rightarrow> carousel" where
  "subject_complete s =
     (if isStopped s then s else log [Complete] (s\<lparr>isStopped := True\<rparr>))"

text \<open>The engine's methods; each dereferences \<open>this.swiper\<close> first.\<close>

definition swiper_autoplay_stop :: "carousel \<Rightarrow> error + carousel" where
  "swiper_autoplay_stop s =
     (if swiper s then Inr (log [AutoplayStop] (s\<lparr>autoplay := False\<rparr>)) else Inl TypeError)"

definition swiper_autoplay_start :: "carousel \<Rightarrow> error + carousel" where
  "swiper_autoplay_start s =
     (if swiper s then Inr (log [AutoplayStart] (s\<lparr>autoplay := True\<rparr>)) else Inl TypeError)"

definition swiper_slideToLoop :: "int \<Rightarrow> nat option \<Rightarrow> carousel \<Rightarrow> error + carousel" where
  "swiper_slideToLoop index speed s =
     (if swiper s then Inr (log [SlideToLoop index speed] s) else Inl TypeError)"

subsection \<open>lodash debounce\<close>

text \<open>\<^verbatim>\<open>wait = toNumber(wait) || 0\<close>: a missing argument is zero.\<close>

definition debounce :: "nat option \<Rightarrow> debounced" where
  "debounce w = \<lparr>wait = (case w of None \<Rightarrow> 0 | Some n \<Rightarrow> n), timerId = None,
                 lastCallTime = None, lastArgs = False\<rparr>"

definition shouldInvoke :: "nat \<Rightarrow> debounced \<Rightarrow> bool" where
  "shouldInvoke time d =
     (case lastCallTime d of
        None \<Rightarrow> True
      | Some t \<Rightarrow> int time - int t \<ge> int (wait d) \<or> int time - int t < 0)"

definition remainingWait :: "nat \<Rightarrow> debounced \<Rightarrow> nat" where
  "remainingWait time d = wait d - (time - the (lastCallTime d))"

text \<open>
  A call of the debounced function. With the default options both branches of lodash's
  \<^verbatim>\<open>if (isInvoking)\<close> start the timer when none is pending and return.
\<close>

definition debounced_call :: "nat \<Rightarrow> debounced \<Rightarrow> debounced" where
  "debounced_call time d =
     (let isInvoking = shouldInvoke time d;
          d1 = d\<lparr>lastArgs := True, lastCallTime := Some time\<rparr>
      in if isInvoking \<and> timerId d1 = None then d1\<lparr>timerId := Some (time + wait d1)\<rparr>
         else if timerId d1 = None then d1\<lparr>timerId := Some (time + wait d1)\<rparr>
         else d1)"

definition debounced_cancel :: "debounced \<Rightarrow> debounced" where
  "debounced_cancel d = d\<lparr>timerId := None, lastCallTime := None, lastArgs := False\<rparr>"

subsection \<open>The component\<close>

text \<open>
  The state after the constructor and the field initialisers, on a rendered surface
  that has no slide yet. \<open>reinitialize\<close> is \<^verbatim>\<open>debounce(function reinitializeImpl ...)\<close>,
  with no second argument.
\<close>

definition constructor :: carousel where
  "constructor = \<lparr>ids = None, components = None, swiper = False,
     reinitialize = debounce None, isStopped = False, lastKey = None,
     viewContainer = [], next_cid = 0, roots = [], activeIndex = 0, slides = [],
     autoplay = False, now = 0, effects = []\<rparr>"

definition updateItemComponent :: "component \<Rightarrow> int option \<Rightarrow> carousel \<Rightarrow> component \<times> carousel" where
  "updateItemComponent c data s =
     (c\<lparr>iterationId := data\<rparr>, log [SetData (cid c) data, ComponentDetectChanges (cid c)] s)"

definition createItemComponent :: "int option \<Rightarrow> carousel \<Rightarrow> component \<times> carousel" where
  "createItemComponent data s =
     (let c = \<lparr>cid = next_cid s, iterationId = None\<rparr>;
          s1 = log [CreateComponent (cid c)]
                 (s\<lparr>viewContainer := viewContainer s @ [cid c], next_cid := Suc (next_cid s)\<rparr>)
      in updateItemComponent c data s1)"

definition createItemComponentForRoot :: "slot \<Rightarrow> carousel \<Rightarrow> error + component \<times> carousel" where
  "createItemComponentForRoot root s =
     (let index = data_index root
      in case ids s of
           None \<Rightarrow> Inl TypeError
         | Some xs \<Rightarrow>
             (let (c, s1) = createItemComponent (array_get xs index) s
              in Inr (c, log [AppendChild (slot_id root) (cid c)] s1)))"

definition destroyItemComponent :: "component \<Rightarrow> carousel \<Rightarrow> carousel" where
  "destroyItemComponent c s =
     (let i = vc_indexOf (viewContainer s) (cid c)
      in log [ContainerRemove i, ComponentDestroy (cid c)]
           (s\<lparr>viewContainer := vc_remove i (viewContainer s)\<rparr>))"

definition selectItemComponentRoots :: "carousel \<Rightarrow> slot list \<times> carousel" where
  "selectItemComponentRoots s = (roots s, log [QuerySlots] s)"

text \<open>
  \<^verbatim>\<open>map(roots, r => this.createItemComponentForRoot(r))\<close>: the slots in order; an
  exception leaves the loop with the state reached so far.
\<close>

fun map_roots :: "slot list \<Rightarrow> carousel \<Rightarrow> error \<times> carousel + component list \<times> carousel" where
  "map_roots [] s = Inr ([], s)"
| "map_roots (r # rs) s =
     (case createItemComponentForRoot r s of
        Inl e \<Rightarrow> Inl (e, s)
      | Inr (c, s1) \<Rightarrow>
          (case map_roots rs s1 of
             Inl x \<Rightarrow> Inl x
           | Inr (cs, s2) \<Rightarrow> Inr (c # cs, s2)))"

definition initialize :: "carousel \<Rightarrow> error \<times> carousel + carousel" where
  "initialize s =
     (let (rs, s1) = selectItemComponentRoots s
      in case map_roots rs s1 of
           Inl x \<Rightarrow> Inl x
         | Inr (cs, s2) \<Rightarrow> Inr (s2\<lparr>components := Some cs\<rparr>))"

text \<open>\<^verbatim>\<open>forEach(this.components, ...)\<close> over \<^verbatim>\<open>undefined\<close> visits nothing.\<close>

fun forEach_destroy :: "component list \<Rightarrow> carousel \<Rightarrow> carousel" where
  "forEach_destroy [] s = s"
| "forEach_destroy (c # cs) s = forEach_destroy cs (destroyItemComponent c s)"

definition destroy :: "carousel \<Rightarrow> carousel" where
  "destroy s =
     (forEach_destroy (case components s of None \<Rightarrow> [] | Some cs \<Rightarrow> cs) s)\<lparr>components := None\<rparr>"

definition reinitializeImpl :: "carousel \<Rightarrow> error \<times> carousel + carousel" where
  "reinitializeImpl s =
     (case initialize (destroy s) of
        Inl x \<Rightarrow> Inl x
      | Inr s1 \<Rightarrow> Inr (log [HostDetectChanges] s1))"

text \<open>\<^verbatim>\<open>this.reinitialize()\<close> and \<^verbatim>\<open>this.reinitialize.cancel()\<close>.\<close>

definition reinitialize_call :: "carousel \<Rightarrow> carousel" where
  "reinitialize_call s = s\<lparr>reinitialize := debounced_call (now s) (reinitialize s)\<rparr>"

definition reinitialize_cancel :: "carousel \<Rightarrow> carousel" where
  "reinitialize_cancel s = s\<lparr>reinitialize := debounced_cancel (reinitialize s)\<rparr>"

definition ngAfterViewInit :: "carousel \<Rightarrow> carousel" where
  "ngAfterViewInit s = reinitialize_call (s\<lparr>swiper := True\<rparr>)"

definition ngOnChanges :: "bool \<Rightarrow> carousel \<Rightarrow> carousel" where
  "ngOnChanges ids_in_changes s =
     (if ids_in_changes \<and> swiper s then reinitialize_call s else s)"

definition ngOnDestroy :: "carousel \<Rightarrow> carousel" where
  "ngOnDestroy s = destroy (reinitialize_cancel (subject_complete s))"

definition indexChanged :: "carousel \<Rightarrow> error + carousel" where
  "indexChanged s =
     (if \<not> swiper s then Inl TypeError
      else case array_get (slides s) (activeIndex s) of
             None \<Rightarrow> Inl TypeError
           | Some element \<Rightarrow> Inr (subject_next (data_index element) s))"

function slideTo :: "int \<Rightarrow> nat option \<Rightarrow> carousel \<Rightarrow> error + carousel"
  and stopAutoplay :: "bool \<Rightarrow> carousel \<Rightarrow> error + carousel" where
  "slideTo index speed s =
     (case stopAutoplay False s of
        Inl e \<Rightarrow> Inl e
      | Inr s1 \<Rightarrow> swiper_slideToLoop index speed s1)"
| "stopAutoplay reset s =
     (if reset
      then (case slideTo 0 (Some 0) s of
              Inl e \<Rightarrow> Inl e
            | Inr s1 \<Rightarrow> swiper_autoplay_stop s1)
      else swiper_autoplay_stop s)"
  by pat_completeness auto
termination
  by (relation "measure (\<lambda>x. case x of Inl _ \<Rightarrow> 1 | Inr (r, _) \<Rightarrow> if r then 2 else 0)") auto

definition startAutoplay :: "bool \<Rightarrow> carousel \<Rightarrow> error + carousel" where
  "startAutoplay reset s =
     (if reset
      then (case slideTo 0 (Some 0) s of
              Inl e \<Rightarrow> Inl e
            | Inr s1 \<Rightarrow> swiper_autoplay_start s1)
      else swiper_autoplay_start s)"

subsection \<open>The timer and the event loop\<close>

text \<open>
  lodash's \<open>trailingEdge\<close> and \<open>timerExpired\<close>, with \<open>reinitializeImpl\<close> as the
  debounced function. \<open>trailingEdge\<close> clears the timer and \<open>lastArgs\<close> before it calls
  the function, so an exception of the function leaves the closure idle.
\<close>

definition trailingEdge :: "carousel \<Rightarrow> error \<times> carousel + carousel" where
  "trailingEdge s =
     (let d = reinitialize s;
          s1 = s\<lparr>reinitialize := d\<lparr>timerId := None, lastArgs := False\<rparr>\<rparr>
      in if lastArgs d then reinitializeImpl s1 else Inr s1)"

definition timerExpired :: "carousel \<Rightarrow> error \<times> carousel + carousel" where
  "timerExpired s =
     (let d = reinitialize s; time = now s
      in if shouldInvoke time d then trailingEdge s
         else Inr (s\<lparr>reinitialize := d\<lparr>timerId := Some (time + remainingWait time d)\<rparr>\<rparr>))"

text \<open>
  What can happen to the component. \<open>NgOnChanges chg\<close>: Angular has written the new
  value of \<open>ids\<close> when \<open>chg\<close> is \<open>Some\<close> of it, and calls the hook with \<open>ids\<close> among
  the changes. \<open>Turn d\<close>: the current synchronous turn ends, \<open>d\<close> milliseconds pass,
  and the event loop runs the timer if it is due; an exception of the callback is
  reported by the event loop and goes no further. \<open>Engine\<close> and \<open>Render\<close> are the
  engine and the rendered surface changing on their own. An exception of a method
  called from outside reaches its caller; the component stays as it was left.
\<close>

datatype event =
    NgAfterViewInit
  | NgOnChanges "int list option option"
  | NgOnDestroy
  | IndexChanged
  | SlideTo int "nat option"
  | StartAutoplay bool
  | StopAutoplay bool
  | Turn nat
  | Engine nat "slot list" bool
  | Render "slot list"

definition settle :: "carousel \<Rightarrow> error + carousel \<Rightarrow> carousel" where
  "settle s r = (case r of Inl e \<Rightarrow> s | Inr s1 \<Rightarrow> s1)"

definition settle_state :: "error \<times> carousel + carousel \<Rightarrow> carousel" where
  "settle_state r = (case r of Inl (e, s1) \<Rightarrow> s1 | Inr s1 \<Rightarrow> s1)"

definition turn :: "nat \<Rightarrow> carousel \<Rightarrow> carousel" where
  "turn d s =
     (let s1 = s\<lparr>now := now s + d\<rparr>
      in case timerId (reinitialize s1) of
           None \<Rightarrow> s1
         | Some due \<Rightarrow> if due \<le> now s1 then settle_state (timerExpired s1) else s1)"

fun step :: "event \<Rightarrow> carousel \<Rightarrow> carousel" where
  "step NgAfterViewInit s = ngAfterViewInit s"
| "step (NgOnChanges None) s = ngOnChanges False s"
| "step (NgOnChanges (Some v)) s = ngOnChanges True (s\<lparr>ids := v\<rparr>)"
| "step NgOnDestroy s = ngOnDestroy s"
| "step IndexChanged s = settle s (indexChanged s)"
| "step (SlideTo index speed) s = settle s (slideTo index speed s)"
| "step (StartAutoplay reset) s = settle s (startAutoplay reset s)"
| "step (StopAutoplay reset) s = settle s (stopAutoplay reset s)"
| "step (Turn d) s = turn d s"
| "step (Engine a sl ap) s = s\<lparr>activeIndex := a, slides := sl, autoplay := ap\<rparr>"
| "step (Render rs) s = s\<lparr>roots := rs\<rparr>"

fun run :: "event list \<Rightarrow> carousel \<Rightarrow> carousel" where
  "run [] s = s"
| "run (e # es) s = run es (step e s)"

subsection \<open>Observations\<close>

text \<open>The values the subscriber of \<open>indexChange\<close> has received, in order.\<close>

fun published_of :: "effect list \<Rightarrow> nat list" where
  "published_of [] = []"
| "published_of (Publish v # es) = v # published_of es"
| "published_of (e # es) = published_of es"

definition published :: "carousel \<Rightarrow> nat list" where
  "published s = published_of (effects s)"

text \<open>
  The number of rebuilds that have run: \<open>reinitializeImpl\<close> queries the slots exactly
  once, and nothing else does.
\<close>

definition rebuilds :: "carousel \<Rightarrow> nat" where
  "rebuilds s = count_list (effects s) QuerySlots"

text \<open>The array a rebuild unbinds: \<open>this.components\<close>, nothing when it is undefined.\<close>

definition old_components :: "carousel \<Rightarrow> component list" where
  "old_components s = (case components s of None \<Rightarrow> [] | Some cs \<Rightarrow> cs)"

text \<open>
  What unbinding a list of components does to the view container and to the log, and
  what binding a list of slots creates and logs, starting at a given fresh identity.
  The lemmas of the next section show that the component computes exactly these.
\<close>

fun destroy_vc :: "component list \<Rightarrow> nat list \<Rightarrow> nat list" where
  "destroy_vc [] vc = vc"
| "destroy_vc (c # cs) vc = destroy_vc cs (vc_remove (vc_indexOf vc (cid c)) vc)"

fun unbind_effects :: "component list \<Rightarrow> nat list \<Rightarrow> effect list" where
  "unbind_effects [] vc = []"
| "unbind_effects (c # cs) vc =
     ContainerRemove (vc_indexOf vc (cid c)) # ComponentDestroy (cid c) #
     unbind_effects cs (vc_remove (vc_indexOf vc (cid c)) vc)"

fun new_components :: "slot list \<Rightarrow> int list \<Rightarrow> nat \<Rightarrow> component list" where
  "new_components [] xs n = []"
| "new_components (r # rs) xs n =
     \<lparr>cid = n, iterationId = array_get xs (data_index r)\<rparr> # new_components rs xs (Suc n)"

fun bind_effects :: "slot list \<Rightarrow> int list \<Rightarrow> nat \<Rightarrow> effect list" where
  "bind_effects [] xs n = []"
| "bind_effects (r # rs) xs n =
     CreateComponent n # SetData n (array_get xs (data_index r)) # ComponentDetectChanges n #
     AppendChild (slot_id r) n # bind_effects rs xs (Suc n)"

fun is_unbind :: "effect \<Rightarrow> bool" where
  "is_unbind (ContainerRemove i) = True"
| "is_unbind (ComponentDestroy c) = True"
| "is_unbind e = False"

fun is_bind :: "effect \<Rightarrow> bool" where
  "is_bind (CreateComponent c) = True"
| "is_bind (SetData c d) = True"
| "is_bind (ComponentDetectChanges c) = True"
| "is_bind (AppendChild r c) = True"
| "is_bind e = False"

text \<open>
  The events that ask for a reconciliation: the view being attached, and a change of
  \<open>ids\<close> reported to \<open>ngOnChanges\<close>.
\<close>

fun is_ids_change :: "event \<Rightarrow> bool" where
  "is_ids_change (NgOnChanges (Some v)) = True"
| "is_ids_change e = False"

fun requests_reconcile :: "event \<Rightarrow> bool" where
  "requests_reconcile NgAfterViewInit = True"
| "requests_reconcile (NgOnChanges (Some v)) = True"
| "requests_reconcile e = False"

fun is_turn :: "event \<Rightarrow> bool" where
  "is_turn (Turn d) = True"
| "is_turn e = False"

text \<open>
  The invariant of the view container: it holds exactly the host views of the
  components the controller holds, in their order; they are distinct and older than the
  next fresh identity.
\<close>

definition wf :: "carousel \<Rightarrow> bool" where
  "wf s \<longleftrightarrow>
     viewContainer s = map cid (old_components s) \<and>
     distinct (viewContainer s) \<and>
     list_all (\<lambda>v. v < next_cid s) (viewContainer s)"

text \<open>
  The invariant of the debounced rebuild: the wait is zero, a timer is pending exactly
  when a call is waiting, and a pending timer is due.
\<close>

fun is_due :: "nat option \<Rightarrow> nat \<Rightarrow> bool" where
  "is_due None t = True"
| "is_due (Some due) t = (due \<le> t)"

definition idle_or_due :: "carousel \<Rightarrow> bool" where
  "idle_or_due s \<longleftrightarrow>
     wait (reinitialize s) = 0 \<and>
     lastArgs (reinitialize s) = (timerId (reinitialize s) \<noteq> None) \<and>
     is_due (timerId (reinitialize s)) (now s)"

text \<open>
  The events that can happen before the view is attached, and the events whose
  handlers reach the components and the view container.
\<close>

fun not_attach :: "event \<Rightarrow> bool" where
  "not_attach NgAfterViewInit = False"
| "not_attach e = True"

fun touches_bindings :: "event \<Rightarrow> bool" where
  "touches_bindings (Turn d) = True"
| "touches_bindings NgOnDestroy = True"
| "touches_bindings e = False"

text \<open>
  The invariant of the published values: no two neighbours are equal, and the key
  that \<open>distinctUntilChanged\<close> keeps is the last value published.
\<close>

definition published_inv :: "carousel \<Rightarrow> bool" where
  "published_inv s \<longleftrightarrow>
     distinct_adj (published s) \<and>
     (published s = [] \<or> lastKey s = Some (last (published s)))"

subsection \<open>The scenario of the spec\<close>

text \<open>
  Five slides for three items, the last two being loop duplicates of the first two;
  the carousel populated with \<open>[10, 20, 30]\<close>; the same carousel right after the
  sequence has been replaced by \<open>[10, 20]\<close>, the rebuild still pending; and a
  carousel attached with slides rendered but \<open>ids\<close> never set.
\<close>

definition example_slots :: "slot list" where
  "example_slots = [\<lparr>slot_id = 0, data_index = 0\<rparr>, \<lparr>slot_id = 1, data_index = 1\<rparr>,
                    \<lparr>slot_id = 2, data_index = 2\<rparr>, \<lparr>slot_id = 3, data_index = 0\<rparr>,
                    \<lparr>slot_id = 4, data_index = 1\<rparr>]"

definition example_ready :: carousel where
  "example_ready =
     run [Render example_slots, NgOnChanges (Some (Some [10, 20, 30])), NgAfterViewInit, Turn 0]
       constructor"

definition example_shrunk :: carousel where
  "example_shrunk = step (NgOnChanges (Some (Some [10, 20]))) example_ready"

definition example_unset :: carousel where
  "example_unset = run [Render example_slots, NgAfterViewInit] constructor"

section \<open>What each operation computes\<close>

lemma forEach_destroy_eq:
  "forEach_destroy cs s =
     s\<lparr>viewContainer := destroy_vc cs (viewContainer s),
       effects := effects s @ unbind_effects cs (viewContainer s)\<rparr>"
  by (induction cs arbitrary: s) (simp_all add: destroyItemComponent_def log_def Let_def)

lemma destroy_eq:
  "destroy s =
     s\<lparr>components := None,
       viewContainer := destroy_vc (old_components s) (viewContainer s),
       effects := effects s @ unbind_effects (old_components s) (viewContainer s)\<rparr>"
  by (simp add: destroy_def forEach_destroy_eq old_components_def)

lemma createItemComponentForRoot_eq:
  "ids s = Some xs \<Longrightarrow>
   createItemComponentForRoot r s =
     Inr (\<lparr>cid = next_cid s, iterationId = array_get xs (data_index r)\<rparr>,
          s\<lparr>viewContainer := viewContainer s @ [next_cid s], next_cid := Suc (next_cid s),
            effects := effects s @ bind_effects [r] xs (next_cid s)\<rparr>)"
  by (simp add: createItemComponentForRoot_def createItemComponent_def updateItemComponent_def
      log_def Let_def)

lemma map_roots_eq:
  "ids s = Some xs \<Longrightarrow>
   map_roots rs s =
     Inr (new_components rs xs (next_cid s),
          s\<lparr>viewContainer := viewContainer s @ map cid (new_components rs xs (next_cid s)),
            next_cid := next_cid s + length rs,
            effects := effects s @ bind_effects rs xs (next_cid s)\<rparr>)"
proof (induction rs arbitrary: s)
  case Nil
  then show ?case by simp
next
  case (Cons r rs)
  then show ?case
    by (simp add: createItemComponentForRoot_eq)
qed

lemma map_roots_undefined:
  "ids s = None \<Longrightarrow>
   map_roots rs s = (if rs = [] then Inr ([], s) else Inl (TypeError, s))"
  by (cases rs) (simp_all add: createItemComponentForRoot_def)

lemma reinitializeImpl_eq:
  "ids s = Some xs \<Longrightarrow>
   reinitializeImpl s =
     Inr (s\<lparr>components := Some (new_components (roots s) xs (next_cid s)),
            viewContainer := destroy_vc (old_components s) (viewContainer s) @
                             map cid (new_components (roots s) xs (next_cid s)),
            next_cid := next_cid s + length (roots s),
            effects := effects s @ unbind_effects (old_components s) (viewContainer s) @
                       [QuerySlots] @ bind_effects (roots s) xs (next_cid s) @
                       [HostDetectChanges]\<rparr>)"
  by (simp add: reinitializeImpl_def initialize_def selectItemComponentRoots_def destroy_eq
      map_roots_eq log_def)

lemma reinitializeImpl_undefined:
  "ids s = None \<Longrightarrow>
   reinitializeImpl s =
     (if roots s = []
      then Inr (s\<lparr>components := Some [],
                  viewContainer := destroy_vc (old_components s) (viewContainer s),
                  effects := effects s @ unbind_effects (old_components s) (viewContainer s) @
                             [QuerySlots, HostDetectChanges]\<rparr>)
      else Inl (TypeError,
                s\<lparr>components := None,
                  viewContainer := destroy_vc (old_components s) (viewContainer s),
                  effects := effects s @ unbind_effects (old_components s) (viewContainer s) @
                             [QuerySlots]\<rparr>))"
  by (simp add: reinitializeImpl_def initialize_def selectItemComponentRoots_def destroy_eq
      map_roots_undefined log_def)

lemma slideTo_eq:
  "slideTo index speed s =
     (if swiper s
      then Inr (s\<lparr>autoplay := False, effects := effects s @ [AutoplayStop, SlideToLoop index speed]\<rparr>)
      else Inl TypeError)"
  by (simp add: swiper_autoplay_stop_def swiper_slideToLoop_def log_def)

lemma stopAutoplay_eq:
  "stopAutoplay reset s =
     (if swiper s
      then Inr (s\<lparr>autoplay := False,
                  effects := effects s @
                    (if reset then [AutoplayStop, SlideToLoop 0 (Some 0), AutoplayStop]
                     else [AutoplayStop])\<rparr>)
      else Inl TypeError)"
  by (simp add: swiper_autoplay_stop_def swiper_slideToLoop_def log_def)

lemma startAutoplay_eq:
  "startAutoplay reset s =
     (if swiper s
      then Inr (s\<lparr>autoplay := True,
                  effects := effects s @
                    (if reset then [AutoplayStop, SlideToLoop 0 (Some 0), AutoplayStart]
                     else [AutoplayStart])\<rparr>)
      else Inl TypeError)"
  by (simp add: startAutoplay_def swiper_autoplay_stop_def swiper_slideToLoop_def
      swiper_autoplay_start_def log_def)

declare slideTo.simps [simp del] stopAutoplay.simps [simp del]

lemma published_of_append: "published_of (xs @ ys) = published_of xs @ published_of ys"
  by (induction xs rule: published_of.induct) simp_all

lemma published_of_unbind: "published_of (unbind_effects cs vc) = []"
  by (induction cs arbitrary: vc) simp_all

lemma published_of_bind: "published_of (bind_effects rs xs n) = []"
  by (induction rs arbitrary: n) simp_all

lemma count_unbind: "count_list (unbind_effects cs vc) QuerySlots = 0"
  by (induction cs arbitrary: vc) simp_all

lemma count_bind: "count_list (bind_effects rs xs n) QuerySlots = 0"
  by (induction rs arbitrary: n) simp_all

subsection \<open>A rebuild as the event loop sees it\<close>

lemma rebuild_keeps:
  "ids (settle_state (reinitializeImpl s)) = ids s"
  "swiper (settle_state (reinitializeImpl s)) = swiper s"
  "reinitialize (settle_state (reinitializeImpl s)) = reinitialize s"
  "isStopped (settle_state (reinitializeImpl s)) = isStopped s"
  "lastKey (settle_state (reinitializeImpl s)) = lastKey s"
  "roots (settle_state (reinitializeImpl s)) = roots s"
  "activeIndex (settle_state (reinitializeImpl s)) = activeIndex s"
  "slides (settle_state (reinitializeImpl s)) = slides s"
  "autoplay (settle_state (reinitializeImpl s)) = autoplay s"
  "now (settle_state (reinitializeImpl s)) = now s"
  by (cases "ids s"; simp add: reinitializeImpl_eq reinitializeImpl_undefined settle_state_def)+

lemma rebuild_published:
  "published (settle_state (reinitializeImpl s)) = published s"
  by (cases "ids s")
    (simp_all add: reinitializeImpl_eq reinitializeImpl_undefined settle_state_def published_def
      published_of_append published_of_unbind published_of_bind)

lemma rebuild_counts:
  "rebuilds (settle_state (reinitializeImpl s)) = Suc (rebuilds s)"
  by (cases "ids s")
    (simp_all add: reinitializeImpl_eq reinitializeImpl_undefined settle_state_def rebuilds_def
      count_unbind count_bind)

subsection \<open>The debounced rebuild: a zero wait and a timer that is due\<close>

lemma turn_idle:
  "timerId (reinitialize s) = None \<Longrightarrow> turn d s = s\<lparr>now := now s + d\<rparr>"
  by (simp add: turn_def)

lemma turn_due:
  assumes "idle_or_due s" "timerId (reinitialize s) = Some due"
  shows "turn d s =
    settle_state (reinitializeImpl
      (s\<lparr>now := now s + d, reinitialize := (reinitialize s)\<lparr>timerId := None, lastArgs := False\<rparr>\<rparr>))"
  using assms
  by (auto simp: turn_def idle_or_due_def timerExpired_def trailingEdge_def shouldInvoke_def
      Let_def split: option.splits)

lemma idle_or_due_constructor: "idle_or_due constructor"
  by (simp add: idle_or_due_def constructor_def debounce_def)

lemma idle_or_due_call: "idle_or_due s \<Longrightarrow> idle_or_due (reinitialize_call s)"
  by (auto simp: idle_or_due_def reinitialize_call_def debounced_call_def Let_def
      split: option.splits)

lemma idle_or_due_turn: "idle_or_due s \<Longrightarrow> idle_or_due (turn d s)"
proof (cases "timerId (reinitialize s)")
  case None
  assume "idle_or_due s"
  with None show ?thesis by (simp add: turn_idle idle_or_due_def)
next
  case (Some due)
  assume "idle_or_due s"
  with Some show ?thesis
    by (simp add: turn_due idle_or_due_def rebuild_keeps)
qed

lemma idle_or_due_cancel: "idle_or_due s \<Longrightarrow> idle_or_due (reinitialize_cancel s)"
  by (simp add: idle_or_due_def reinitialize_cancel_def debounced_cancel_def)

lemma idle_or_due_step: "idle_or_due s \<Longrightarrow> idle_or_due (step e s)"
proof (cases e)
  case (NgOnChanges chg)
  assume a: "idle_or_due s"
  show ?thesis
  proof (cases chg)
    case None
    with a NgOnChanges show ?thesis by (simp add: ngOnChanges_def)
  next
    case (Some v)
    have "idle_or_due (s\<lparr>ids := v\<rparr>)" using a by (simp add: idle_or_due_def)
    then show ?thesis using NgOnChanges Some
      by (simp add: ngOnChanges_def idle_or_due_call)
  qed
next
  case (Turn d)
  assume "idle_or_due s"
  then show ?thesis using Turn by (simp add: idle_or_due_turn)
next
  case NgAfterViewInit
  assume a: "idle_or_due s"
  have "idle_or_due (s\<lparr>swiper := True\<rparr>)" using a by (simp add: idle_or_due_def)
  then show ?thesis using NgAfterViewInit
    by (simp add: ngAfterViewInit_def idle_or_due_call)
next
  case NgOnDestroy
  assume a: "idle_or_due s"
  have "idle_or_due (subject_complete s)"
    using a by (simp add: idle_or_due_def subject_complete_def log_def)
  then have "idle_or_due (reinitialize_cancel (subject_complete s))"
    by (rule idle_or_due_cancel)
  then show ?thesis using NgOnDestroy
    by (simp add: ngOnDestroy_def destroy_eq idle_or_due_def)
next
  case IndexChanged
  assume "idle_or_due s"
  then show ?thesis using IndexChanged
    by (simp add: idle_or_due_def settle_def indexChanged_def subject_next_def log_def
        split: option.splits)
next
  case (SlideTo i sp)
  assume "idle_or_due s"
  then show ?thesis using SlideTo by (simp add: idle_or_due_def settle_def slideTo_eq)
next
  case (StartAutoplay r)
  assume "idle_or_due s"
  then show ?thesis using StartAutoplay by (simp add: idle_or_due_def settle_def startAutoplay_eq)
next
  case (StopAutoplay r)
  assume "idle_or_due s"
  then show ?thesis using StopAutoplay by (simp add: idle_or_due_def settle_def stopAutoplay_eq)
next
  case (Engine a sl ap)
  assume "idle_or_due s"
  then show ?thesis using Engine by (simp add: idle_or_due_def)
next
  case (Render rs)
  assume "idle_or_due s"
  then show ?thesis using Render by (simp add: idle_or_due_def)
qed

lemma idle_or_due_run: "idle_or_due s \<Longrightarrow> idle_or_due (run evs s)"
  by (induction evs arbitrary: s) (simp_all add: idle_or_due_step)

subsection \<open>Counting rebuilds\<close>

lemma settle_state_simps [simp]:
  "settle_state (Inr s) = s" "settle_state (Inl (e, s)) = s"
  by (simp_all add: settle_state_def)

lemma run_append: "run (xs @ ys) s = run ys (run xs s)"
  by (induction xs arbitrary: s) simp_all

lemma rebuilds_call: "rebuilds (reinitialize_call s) = rebuilds s"
  by (simp add: rebuilds_def reinitialize_call_def)

lemma rebuilds_destroy: "rebuilds (destroy s) = rebuilds s"
  by (simp add: rebuilds_def destroy_eq count_unbind)

lemma rebuilds_step:
  "\<not> is_turn e \<Longrightarrow> rebuilds (step e s) = rebuilds s"
proof (cases e)
  case (NgOnChanges chg)
  then show ?thesis
    by (cases chg) (simp_all add: ngOnChanges_def rebuilds_call, simp add: rebuilds_def)
next
  case NgOnDestroy
  then show ?thesis
    by (simp add: ngOnDestroy_def rebuilds_destroy, 
        simp add: rebuilds_def reinitialize_cancel_def subject_complete_def log_def)
next
  case NgAfterViewInit
  then show ?thesis by (simp add: ngAfterViewInit_def rebuilds_call, simp add: rebuilds_def)
next
  case IndexChanged
  then show ?thesis
    by (simp add: rebuilds_def settle_def indexChanged_def subject_next_def log_def
        split: option.splits)
qed (simp_all add: rebuilds_def settle_def slideTo_eq stopAutoplay_eq startAutoplay_eq)

lemma rebuilds_turn:
  assumes "idle_or_due s"
  shows "rebuilds (turn d s) = rebuilds s + (if timerId (reinitialize s) = None then 0 else 1)"
proof (cases "timerId (reinitialize s)")
  case None
  then show ?thesis by (simp add: turn_idle rebuilds_def)
next
  case (Some due)
  with assms show ?thesis
    by (simp add: turn_due rebuild_counts, simp add: rebuilds_def)
qed

lemma timer_after_turn:
  assumes "idle_or_due s"
  shows "timerId (reinitialize (turn d s)) = None"
proof (cases "timerId (reinitialize s)")
  case None
  then show ?thesis by (simp add: turn_idle)
next
  case (Some due)
  with assms show ?thesis by (simp add: turn_due rebuild_keeps)
qed

lemma timer_after_call: "timerId (reinitialize (reinitialize_call s)) \<noteq> None"
  by (simp add: reinitialize_call_def debounced_call_def Let_def)

lemma swiper_step: "swiper s \<Longrightarrow> swiper (step e s)"
proof (cases e)
  case (NgOnChanges chg)
  assume "swiper s"
  with NgOnChanges show ?thesis
    by (cases chg) (simp_all add: ngOnChanges_def reinitialize_call_def)
next
  case NgOnDestroy
  assume "swiper s"
  with NgOnDestroy show ?thesis
    by (simp add: ngOnDestroy_def destroy_eq reinitialize_cancel_def subject_complete_def log_def)
next
  case (Turn d)
  assume a: "swiper s"
  show ?thesis
  proof (cases "timerId (reinitialize s)")
    case None
    with a Turn show ?thesis by (simp add: turn_idle)
  next
    case (Some due)
    with a Turn show ?thesis
      by (simp add: turn_def timerExpired_def trailingEdge_def rebuild_keeps Let_def)
  qed
next
  case IndexChanged
  assume "swiper s"
  with IndexChanged show ?thesis
    by (simp add: settle_def indexChanged_def subject_next_def log_def split: option.splits)
qed (simp_all add: ngAfterViewInit_def reinitialize_call_def settle_def slideTo_eq
      stopAutoplay_eq startAutoplay_eq)

lemma swiper_run: "swiper s \<Longrightarrow> swiper (run evs s)"
  by (induction evs arbitrary: s) (simp_all add: swiper_step)

lemma step_ids_change:
  "is_ids_change e \<Longrightarrow> swiper s \<Longrightarrow>
   rebuilds (step e s) = rebuilds s \<and> timerId (reinitialize (step e s)) \<noteq> None"
  by (cases e rule: is_ids_change.cases)
    (simp_all add: ngOnChanges_def rebuilds_call timer_after_call, simp add: rebuilds_def)

lemma burst_pending:
  assumes "swiper s" "list_all is_ids_change burst"
  shows "rebuilds (run burst s) = rebuilds s \<and>
         (burst \<noteq> [] \<longrightarrow> timerId (reinitialize (run burst s)) \<noteq> None)"
  using assms
proof (induction burst arbitrary: s rule: rev_induct)
  case Nil
  then show ?case by simp
next
  case (snoc e burst)
  then have "swiper (run burst s)" by (simp add: swiper_run)
  with snoc show ?case
    by (simp add: run_append step_ids_change)
qed

lemma quiet_turns:
  assumes "idle_or_due s" "timerId (reinitialize s) = None" "list_all is_turn quiet"
  shows "rebuilds (run quiet s) = rebuilds s"
  using assms
proof (induction quiet arbitrary: s)
  case Nil
  then show ?case by simp
next
  case (Cons e quiet)
  then obtain d where e: "e = Turn d" by (cases e) simp_all
  have "idle_or_due (turn d s)" "timerId (reinitialize (turn d s)) = None"
    "rebuilds (turn d s) = rebuilds s"
    using Cons.prems by (simp_all add: idle_or_due_turn timer_after_turn rebuilds_turn)
  with Cons e show ?case by simp
qed

subsection \<open>Requests and turns\<close>

lemma wait_run: "wait (reinitialize (run evs constructor)) = 0"
  using idle_or_due_run [OF idle_or_due_constructor, of evs] by (simp add: idle_or_due_def)

lemma request_then_turn:
  assumes "idle_or_due s" "swiper s"
  shows "rebuilds (run [NgOnChanges (Some v), Turn d] s) = Suc (rebuilds s) \<and>
         idle_or_due (run [NgOnChanges (Some v), Turn d] s) \<and>
         swiper (run [NgOnChanges (Some v), Turn d] s)"
proof -
  let ?r = "step (NgOnChanges (Some v)) s"
  have r: "rebuilds ?r = rebuilds s" "timerId (reinitialize ?r) \<noteq> None"
    using step_ids_change [of "NgOnChanges (Some v)" s] assms(2) by simp_all
  have i: "idle_or_due ?r" using assms(1) by (rule idle_or_due_step)
  have "rebuilds (turn d ?r) = Suc (rebuilds s)"
    using rebuilds_turn [OF i, of d] r by simp
  moreover have "idle_or_due (turn d ?r)" using i by (rule idle_or_due_turn)
  moreover have "swiper (run [NgOnChanges (Some v), Turn d] s)"
    using assms(2) by (rule swiper_run)
  ultimately show ?thesis by simp
qed

lemma burst_then_turn:
  assumes "idle_or_due s" "swiper s" "burst \<noteq> []" "list_all is_ids_change burst"
  shows "rebuilds (turn d (run burst s)) = Suc (rebuilds s)"
proof -
  have b: "rebuilds (run burst s) = rebuilds s" "timerId (reinitialize (run burst s)) \<noteq> None"
    using burst_pending [OF assms(2) assms(4)] assms(3) by simp_all
  have "idle_or_due (run burst s)" using assms(1) by (rule idle_or_due_run)
  then show ?thesis using rebuilds_turn [of "run burst s" d] b by simp
qed

lemma early_step:
  assumes "not_attach e" "\<not> swiper s" "timerId (reinitialize s) = None"
  shows "\<not> swiper (step e s) \<and> timerId (reinitialize (step e s)) = None \<and>
         rebuilds (step e s) = rebuilds s"
proof (cases e)
  case NgAfterViewInit
  with assms show ?thesis by simp
next
  case (NgOnChanges chg)
  with assms show ?thesis
    by (cases chg) (simp_all add: ngOnChanges_def rebuilds_def)
next
  case NgOnDestroy
  with assms show ?thesis
    by (simp add: ngOnDestroy_def destroy_eq reinitialize_cancel_def debounced_cancel_def
        subject_complete_def log_def rebuilds_def count_unbind)
next
  case (Turn d)
  with assms show ?thesis by (simp add: turn_idle rebuilds_def)
qed (use assms in \<open>simp_all add: settle_def indexChanged_def slideTo_eq stopAutoplay_eq
      startAutoplay_eq rebuilds_def\<close>)

lemma early_run:
  assumes "list_all not_attach early" "\<not> swiper s" "timerId (reinitialize s) = None"
  shows "\<not> swiper (run early s) \<and> timerId (reinitialize (run early s)) = None \<and>
         rebuilds (run early s) = rebuilds s"
  using assms
proof (induction early arbitrary: s)
  case Nil
  then show ?case by simp
next
  case (Cons e early)
  then show ?case using early_step [of e s] by simp
qed

lemma attach_then_turn:
  assumes "idle_or_due s" "list_all is_ids_change burst"
  shows "rebuilds (run (NgAfterViewInit # burst @ [Turn d]) s) = Suc (rebuilds s)"
proof -
  let ?a = "step NgAfterViewInit s"
  have a1: "swiper ?a" by (simp add: ngAfterViewInit_def reinitialize_call_def)
  have a2: "idle_or_due ?a" using assms(1) by (rule idle_or_due_step)
  have a3: "rebuilds ?a = rebuilds s" by (rule rebuilds_step) simp
  have a4: "timerId (reinitialize ?a) \<noteq> None"
    by (simp add: ngAfterViewInit_def timer_after_call)
  note a = a1 a2 a3 a4
  show ?thesis
  proof (cases "burst = []")
    case True
    then show ?thesis using rebuilds_turn [OF a(2), of d] a by simp
  next
    case False
    then show ?thesis
      using burst_then_turn [OF a(2) a(1) False assms(2), of d] a(3)
      by (simp add: run_append)
  qed
qed

subsection \<open>The effects of unbinding and binding\<close>

lemma unbind_effects_are_unbind: "list_all is_unbind (unbind_effects cs vc)"
  by (induction cs arbitrary: vc) simp_all

lemma bind_effects_are_bind: "list_all is_bind (bind_effects rs xs n)"
  by (induction rs arbitrary: n) simp_all

lemma unbind_effects_destroy:
  "c \<in> set cs \<Longrightarrow> ComponentDestroy (cid c) \<in> set (unbind_effects cs vc)"
  by (induction cs arbitrary: vc) auto

lemma bind_effects_create:
  "c \<in> set (new_components rs xs n) \<Longrightarrow> CreateComponent (cid c) \<in> set (bind_effects rs xs n)"
  by (induction rs arbitrary: n) auto

lemma length_new_components: "length (new_components rs xs n) = length rs"
  by (induction rs arbitrary: n) simp_all

subsection \<open>The view container holds the components held\<close>

text \<open>
  The controller destroys its components in the order it created them, so each is
  found at the front of the container: \<open>remove\<close> is always called with index 0.
\<close>

lemma destroy_vc_own: "destroy_vc cs (map cid cs) = []"
  by (induction cs) (simp_all add: vc_remove_def)

lemma unbind_effects_own:
  "unbind_effects cs (map cid cs) =
     concat (map (\<lambda>c. [ContainerRemove 0, ComponentDestroy (cid c)]) cs)"
  by (induction cs) (simp_all add: vc_remove_def)

lemma destroy_removes_at_index:
  "wf s \<Longrightarrow>
   effects (destroy s) =
     effects s @ concat (map (\<lambda>c. [ContainerRemove 0, ComponentDestroy (cid c)]) (old_components s))
   \<and> viewContainer (destroy s) = []"
  by (simp add: wf_def destroy_eq unbind_effects_own destroy_vc_own)

lemma cid_new_components: "map cid (new_components rs xs n) = [n..<n + length rs]"
  by (induction rs arbitrary: n) (simp_all add: upt_rec)

lemma iterationId_new_components:
  "map iterationId (new_components rs xs n) = map (\<lambda>r. array_get xs (data_index r)) rs"
  by (induction rs arbitrary: n) simp_all

lemma append_child_new_components:
  "k < length rs \<Longrightarrow>
   AppendChild (slot_id (rs ! k)) (cid (new_components rs xs n ! k)) \<in> set (bind_effects rs xs n)"
proof (induction rs arbitrary: n k)
  case Nil
  then show ?case by simp
next
  case (Cons r rs)
  then show ?case by (cases k) simp_all
qed

lemma wf_rebuild: "wf s \<Longrightarrow> wf (settle_state (reinitializeImpl s))"
proof (cases "ids s")
  case None
  assume a: "wf s"
  then have "destroy_vc (old_components s) (viewContainer s) = []"
    by (simp add: wf_def destroy_vc_own)
  with None show ?thesis
    by (simp add: reinitializeImpl_undefined wf_def old_components_def)
next
  case (Some xs)
  assume a: "wf s"
  then have "destroy_vc (old_components s) (viewContainer s) = []"
    by (simp add: wf_def destroy_vc_own)
  with Some show ?thesis
    by (simp add: reinitializeImpl_eq wf_def old_components_def
        cid_new_components list_all_iff)
qed

lemma wf_same:
  "components s' = components s \<Longrightarrow> viewContainer s' = viewContainer s \<Longrightarrow>
   next_cid s' = next_cid s \<Longrightarrow> wf s' = wf s"
  by (simp add: wf_def old_components_def)

lemma wf_turn: "wf s \<Longrightarrow> wf (turn d s)"
proof -
  assume a: "wf s"
  have b: "wf (s\<lparr>now := t, reinitialize := r\<rparr>)" for t r
    using a wf_same [of "s\<lparr>now := t, reinitialize := r\<rparr>" s] by simp
  have c: "wf (s\<lparr>now := t\<rparr>)" for t
    using a wf_same [of "s\<lparr>now := t\<rparr>" s] by simp
  show ?thesis
    using b c wf_rebuild [OF b]
    by (simp add: turn_def timerExpired_def trailingEdge_def Let_def split: option.splits)
qed

lemma step_keeps_bindings:
  assumes "\<not> touches_bindings e"
  shows "components (step e s) = components s \<and> viewContainer (step e s) = viewContainer s \<and>
         next_cid (step e s) = next_cid s"
proof (cases e)
  case (NgOnChanges chg)
  then show ?thesis
    by (cases chg) (simp_all add: ngOnChanges_def reinitialize_call_def)
next
  case IndexChanged
  then show ?thesis
    by (simp add: settle_def indexChanged_def subject_next_def log_def split: option.splits)
qed (use assms in \<open>simp_all add: ngAfterViewInit_def reinitialize_call_def settle_def slideTo_eq
      startAutoplay_eq stopAutoplay_eq\<close>)

lemma wf_destroy: "wf s \<Longrightarrow> wf (ngOnDestroy s)"
proof -
  assume a: "wf s"
  let ?c = "reinitialize_cancel (subject_complete s)"
  have "wf ?c = wf s"
    by (rule wf_same)
      (simp_all add: reinitialize_cancel_def subject_complete_def log_def)
  with a have "wf ?c" by blast
  then have c: "viewContainer ?c = map cid (old_components ?c)"
    unfolding wf_def by blast
  show ?thesis
    unfolding ngOnDestroy_def
    by (simp add: destroy_eq c destroy_vc_own wf_def old_components_def)
qed

lemma wf_step: "wf s \<Longrightarrow> wf (step e s)"
proof (cases "touches_bindings e")
  case True
  assume "wf s"
  with True show ?thesis
    by (cases e) (simp_all add: wf_turn wf_destroy)
next
  case False
  assume a: "wf s"
  have "wf (step e s) = wf s"
    using step_keeps_bindings [OF False, of s] by (intro wf_same) simp_all
  with a show ?thesis by simp
qed

lemma wf_run: "wf s \<Longrightarrow> wf (run evs s)"
  by (induction evs arbitrary: s) (simp_all add: wf_step)

lemma wf_constructor: "wf constructor"
  by (simp add: wf_def constructor_def old_components_def)

lemma wf_reachable: "wf (run evs constructor)"
  using wf_constructor by (rule wf_run)

subsection \<open>The published values\<close>

lemma rebuild_published_of:
  "published_of (effects (settle_state (reinitializeImpl s))) = published_of (effects s)"
  using rebuild_published [of s] by (simp add: published_def)

lemma turn_subject:
  "published (turn d s) = published s \<and> lastKey (turn d s) = lastKey s \<and>
   isStopped (turn d s) = isStopped s"
  by (simp add: turn_def timerExpired_def trailingEdge_def Let_def published_def
      rebuild_published_of rebuild_keeps split: option.splits)

lemma destroy_subject:
  "published (destroy s) = published s \<and> lastKey (destroy s) = lastKey s \<and>
   isStopped (destroy s) = isStopped s"
  by (simp add: destroy_eq published_def published_of_append published_of_unbind)

lemma ngOnDestroy_subject:
  "published (ngOnDestroy s) = published s \<and> lastKey (ngOnDestroy s) = lastKey s \<and>
   isStopped (ngOnDestroy s)"
  by (simp add: ngOnDestroy_def destroy_subject)
    (simp add: reinitialize_cancel_def subject_complete_def log_def published_def
      published_of_append)

lemma step_subject:
  assumes "e \<noteq> IndexChanged"
  shows "published (step e s) = published s \<and> lastKey (step e s) = lastKey s \<and>
         (isStopped s \<longrightarrow> isStopped (step e s))"
proof (cases e)
  case (NgOnChanges chg)
  then show ?thesis
    by (cases chg) (simp_all add: ngOnChanges_def reinitialize_call_def published_def)
next
  case NgOnDestroy
  then show ?thesis by (simp add: ngOnDestroy_subject)
next
  case (Turn d)
  then show ?thesis by (simp add: turn_subject)
qed (use assms in \<open>simp_all add: ngAfterViewInit_def reinitialize_call_def settle_def slideTo_eq
      startAutoplay_eq stopAutoplay_eq published_def published_of_append\<close>)

lemma published_inv_indexChanged: "published_inv s \<Longrightarrow> published_inv (step IndexChanged s)"
  by (auto simp: published_inv_def settle_def indexChanged_def subject_next_def log_def
      published_def published_of_append distinct_adj_append_iff split: option.splits)

lemma published_inv_step: "published_inv s \<Longrightarrow> published_inv (step e s)"
proof (cases "e = IndexChanged")
  case True
  assume "published_inv s"
  with True show ?thesis by (simp only: published_inv_indexChanged)
next
  case False
  assume "published_inv s"
  with step_subject [OF False, of s] show ?thesis by (simp add: published_inv_def)
qed

lemma published_inv_run: "published_inv s \<Longrightarrow> published_inv (run evs s)"
  by (induction evs arbitrary: s) (simp_all add: published_inv_step)

lemma published_inv_constructor: "published_inv constructor"
  by (simp add: published_inv_def constructor_def published_def)

lemma scenario_published:
  "published (run [Render example_slots, NgOnChanges (Some (Some [10, 20, 30])),
      NgAfterViewInit, Turn 0, Engine 3 example_slots True, IndexChanged, IndexChanged,
      Engine 4 example_slots True, IndexChanged] constructor) = [0, 1]"
  by code_simp

subsection \<open>After teardown\<close>

text \<open>
  \<open>destroy\<close> resets \<open>components\<close>, so a second teardown finds nothing to unbind
  and changes nothing.
\<close>

lemma destroy_unbound: "components s = None \<Longrightarrow> destroy s = s"
  by (simp add: destroy_eq old_components_def)

lemma stopped_step:
  assumes "isStopped s"
  shows "isStopped (step e s) \<and> published (step e s) = published s"
proof (cases "e = IndexChanged")
  case True
  with assms show ?thesis
    by (simp add: settle_def indexChanged_def subject_next_def split: option.splits)
next
  case False
  with assms step_subject [OF False, of s] show ?thesis by simp
qed

lemma stopped_run:
  "isStopped s \<Longrightarrow> isStopped (run evs s) \<and> published (run evs s) = published s"
proof (induction evs arbitrary: s)
  case Nil
  then show ?case by simp
next
  case (Cons e evs)
  then show ?case using stopped_step [of s e] by simp
qed

lemma step_keeps_timer:
  assumes "\<not> requests_reconcile e" "\<not> touches_bindings e"
  shows "reinitialize (step e s) = reinitialize s"
proof (cases e)
  case (NgOnChanges chg)
  with assms show ?thesis by (cases chg) (simp_all add: ngOnChanges_def)
next
  case IndexChanged
  then show ?thesis
    by (simp add: settle_def indexChanged_def subject_next_def log_def split: option.splits)
qed (use assms in \<open>simp_all add: settle_def slideTo_eq startAutoplay_eq stopAutoplay_eq\<close>)

lemma torn_down_step:
  assumes "\<not> requests_reconcile e" "timerId (reinitialize s) = None" "components s = None"
  shows "timerId (reinitialize (step e s)) = None \<and> components (step e s) = None \<and>
         viewContainer (step e s) = viewContainer s \<and> next_cid (step e s) = next_cid s \<and>
         rebuilds (step e s) = rebuilds s"
proof (cases "touches_bindings e")
  case True
  then show ?thesis
  proof (cases e)
    case (Turn d)
    with assms show ?thesis by (simp add: turn_idle rebuilds_def)
  next
    case NgOnDestroy
    with assms show ?thesis
      by (simp add: ngOnDestroy_def destroy_eq old_components_def reinitialize_cancel_def
          debounced_cancel_def subject_complete_def log_def rebuilds_def)
  qed simp_all
next
  case False
  have "\<not> is_turn e" using False by (cases e) simp_all
  then show ?thesis
    using step_keeps_bindings [OF False, of s] step_keeps_timer [OF assms(1) False, of s] assms
    by (simp add: rebuilds_step)
qed

lemma torn_down_run:
  assumes "list_all (\<lambda>e. \<not> requests_reconcile e) evs" "timerId (reinitialize s) = None"
    "components s = None"
  shows "timerId (reinitialize (run evs s)) = None \<and> components (run evs s) = None \<and>
         viewContainer (run evs s) = viewContainer s \<and> next_cid (run evs s) = next_cid s \<and>
         rebuilds (run evs s) = rebuilds s"
  using assms
proof (induction evs arbitrary: s)
  case Nil
  then show ?case by simp
next
  case (Cons e evs)
  then show ?case using torn_down_step [of e s] by simp
qed

lemma ngOnDestroy_fields:
  "timerId (reinitialize (ngOnDestroy s)) = None \<and> \<not> lastArgs (reinitialize (ngOnDestroy s)) \<and>
   components (ngOnDestroy s) = None \<and>
   (\<forall>c\<in>set (old_components s). ComponentDestroy (cid c) \<in> set (effects (ngOnDestroy s)))"
  by (simp add: ngOnDestroy_def destroy_eq unbind_effects_destroy)
    (simp add: reinitialize_cancel_def debounced_cancel_def subject_complete_def log_def
      old_components_def unbind_effects_destroy)

section \<open>The claims\<close>

text \<open>
  C1. After a successful reconciliation the controller holds one component per
  discovered slot, in the order of the slots, and the view container holds exactly
  these, all distinct. The component of a slot carries \<open>ids[index]\<close> for the index
  the slot encodes, which is the item identifier at that index when there is one; its
  root node has been appended to the slot. Every component held before has been
  destroyed and is neither in the container nor among the new ones. The hypothesis
  \<open>wf\<close> is the invariant of the view container: it holds in every state the
  component reaches from its construction (\<open>wf_reachable\<close>), and the timer hands
  such a state to the rebuild (\<open>wf_turn\<close>).
\<close>

theorem bindings_match_slots:
  assumes "wf s" and "reinitializeImpl s = Inr s'"
  shows "\<exists>cs. components s' = Some cs \<and> length cs = length (roots s') \<and>
      viewContainer s' = map cid cs \<and> distinct (map cid cs) \<and>
      (ids s' = None \<longrightarrow> cs = []) \<and>
      (\<forall>k<length cs.
         (\<forall>xs. ids s' = Some xs \<longrightarrow>
            iterationId (cs ! k) = array_get xs (data_index (roots s' ! k)) \<and>
            (data_index (roots s' ! k) < length xs \<longrightarrow>
               iterationId (cs ! k) = Some (xs ! data_index (roots s' ! k)))) \<and>
         AppendChild (slot_id (roots s' ! k)) (cid (cs ! k))
           \<in> set (drop (length (effects s)) (effects s'))) \<and>
      (\<forall>c\<in>set (old_components s).
         cid c \<notin> set (viewContainer s') \<and> cid c \<notin> set (map cid cs) \<and>
         ComponentDestroy (cid c) \<in> set (drop (length (effects s)) (effects s')))"
proof (cases "ids s")
  case None
  with assms(2) have r: "roots s = []"
    by (simp add: reinitializeImpl_undefined split: if_splits)
  with None assms have s': "s' = s\<lparr>components := Some [],
        viewContainer := [],
        effects := effects s @ unbind_effects (old_components s) (viewContainer s) @
                             [QuerySlots, HostDetectChanges]\<rparr>"
    by (simp add: reinitializeImpl_undefined wf_def destroy_vc_own)
  show ?thesis
    by (rule exI [of _ "[]"]) (simp add: s' r unbind_effects_destroy)
next
  case (Some xs)
  let ?cs = "new_components (roots s) xs (next_cid s)"
  let ?new = "unbind_effects (old_components s) (viewContainer s) @
      [QuerySlots] @ bind_effects (roots s) xs (next_cid s) @ [HostDetectChanges]"
  from Some assms have s': "s' = s\<lparr>components := Some ?cs, viewContainer := map cid ?cs,
        next_cid := next_cid s + length (roots s), effects := effects s @ ?new\<rparr>"
    by (simp add: reinitializeImpl_eq wf_def destroy_vc_own)
  have old: "\<forall>c\<in>set (old_components s). cid c < next_cid s"
    using assms(1) by (auto simp: wf_def list_all_iff)
  have per_slot: "\<forall>k<length ?cs.
      iterationId (?cs ! k) = array_get xs (data_index (roots s ! k)) \<and>
      AppendChild (slot_id (roots s ! k)) (cid (?cs ! k)) \<in> set ?new"
  proof (intro allI impI conjI)
    fix k assume k: "k < length ?cs"
    then have k': "k < length (roots s)" by (simp add: length_new_components)
    have "iterationId (?cs ! k) = map iterationId ?cs ! k" using k by simp
    also have "\<dots> = array_get xs (data_index (roots s ! k))"
      using k' by (simp add: iterationId_new_components)
    finally show "iterationId (?cs ! k) = array_get xs (data_index (roots s ! k))" .
    show "AppendChild (slot_id (roots s ! k)) (cid (?cs ! k)) \<in> set ?new"
      using append_child_new_components [OF k', of xs "next_cid s"] by simp
  qed
  have gone: "\<forall>c\<in>set (old_components s).
      cid c \<notin> set (map cid ?cs) \<and> ComponentDestroy (cid c) \<in> set ?new"
    using old by (auto simp: cid_new_components unbind_effects_destroy)
  show ?thesis
    using per_slot gone Some
    by (intro exI [of _ ?cs])
      (auto simp: s' length_new_components cid_new_components array_get_def)
qed

theorem bindings_match_slots_witness:
  "wf example_ready \<and>
   reinitializeImpl example_ready = Inr (settle_state (reinitializeImpl example_ready)) \<and>
   map iterationId (old_components (settle_state (reinitializeImpl example_ready))) =
     [Some 10, Some 20, Some 30, Some 10, Some 20] \<and>
   (\<exists>cs. components (settle_state (reinitializeImpl example_ready)) = Some cs \<and>
      length cs = length (roots (settle_state (reinitializeImpl example_ready))) \<and>
      viewContainer (settle_state (reinitializeImpl example_ready)) = map cid cs \<and>
      distinct (map cid cs) \<and>
      (\<forall>c\<in>set (old_components example_ready).
         cid c \<notin> set (viewContainer (settle_state (reinitializeImpl example_ready)))))"
proof -
  have h1: "wf example_ready"
    by code_simp
  have h2: "reinitializeImpl example_ready = Inr (settle_state (reinitializeImpl example_ready))"
    by code_simp
  have h3: "map iterationId (old_components (settle_state (reinitializeImpl example_ready))) =
     [Some 10, Some 20, Some 30, Some 10, Some 20]"
    by code_simp
  show ?thesis
    using h1 h2 h3 bindings_match_slots [OF h1 h2] by blast
qed

text \<open>
  C2. Whatever happens to the component from its construction on, the values its
  subscriber receives never hold two equal neighbours; and in any state at all, a
  second notification for the same active slot publishes nothing more than the first.
\<close>

theorem index_stream_distinct_until_changed:
  "distinct_adj (published (run evs constructor)) \<and>
   published (run [IndexChanged, IndexChanged] s) = published (run [IndexChanged] s)"
proof -
  have "published_inv (run evs constructor)"
    using published_inv_constructor by (rule published_inv_run)
  moreover have "published (run [IndexChanged, IndexChanged] s) = published (run [IndexChanged] s)"
    by (simp add: settle_def indexChanged_def subject_next_def log_def split: option.splits)
  ultimately show ?thesis by (simp add: published_inv_def)
qed

text \<open>
  C3, the counterexample. The sequence has shrunk from \<open>[10, 20, 30]\<close> to
  \<open>[10, 20]\<close> while the five slots still encode the indices 0, 1, 2, 0, 1. The bind
  of the slot that encodes 2 does not fail, and the rebuild of the next turn binds all
  five slots, the stale one with \<^verbatim>\<open>undefined\<close>.
\<close>

theorem stale_slot_counterexample:
  "\<not> isl (createItemComponentForRoot \<lparr>slot_id = 2, data_index = 2\<rparr> example_shrunk) \<and>
   iterationId (fst (projr (createItemComponentForRoot \<lparr>slot_id = 2, data_index = 2\<rparr>
      example_shrunk))) = None \<and>
   ids example_shrunk = Some [10, 20] \<and>
   map data_index (roots example_shrunk) = [0, 1, 2, 0, 1] \<and>
   map iterationId (old_components (step (Turn 0) example_shrunk)) =
     [Some 10, Some 20, None, Some 10, Some 20]"
  by code_simp

text \<open>
  C3, as amended. The claim has the bind of a stale slot fail with IndexOutOfRange and
  the slot skipped. The code has no such failure: \<open>this.ids[index]\<close> past the end of
  the array is \<^verbatim>\<open>undefined\<close>, and the counterexample above shows the stale slot of
  the spec's own scenario bound like the others, with \<^verbatim>\<open>undefined\<close> as its data.
  What holds: as long as \<open>ids\<close> is an array, the bind of a slot whose index has no
  identifier returns a component with undefined data, placed in the container and
  appended to the slot; and the binding of any list of slots returns one component per
  slot, each with the identifier at its index when there is one and \<^verbatim>\<open>undefined\<close>
  otherwise, so a stale slot does not keep the others from binding.
\<close>

theorem stale_slot_binds_undefined:
  assumes "ids s = Some xs"
  shows "(length xs \<le> data_index r \<longrightarrow>
           (\<exists>c s'. createItemComponentForRoot r s = Inr (c, s') \<and> iterationId c = None \<and>
              cid c \<in> set (viewContainer s') \<and>
              AppendChild (slot_id r) (cid c) \<in> set (effects s'))) \<and>
         (\<exists>cs s'. map_roots rs s = Inr (cs, s') \<and> length cs = length rs \<and>
            (\<forall>k<length rs.
               iterationId (cs ! k) =
                 (if data_index (rs ! k) < length xs then Some (xs ! data_index (rs ! k))
                  else None)))"
proof -
  have "\<forall>k<length rs. iterationId (new_components rs xs (next_cid s) ! k) =
      array_get xs (data_index (rs ! k))"
  proof (intro allI impI)
    fix k assume k: "k < length rs"
    then have "iterationId (new_components rs xs (next_cid s) ! k) =
        map iterationId (new_components rs xs (next_cid s)) ! k"
      by (simp add: length_new_components)
    then show "iterationId (new_components rs xs (next_cid s) ! k) =
        array_get xs (data_index (rs ! k))"
      using k by (simp add: iterationId_new_components)
  qed
  then show ?thesis
    using assms
    by (simp add: createItemComponentForRoot_eq map_roots_eq length_new_components array_get_def)
qed

theorem stale_slot_binds_undefined_witness:
  "ids example_shrunk = Some [10, 20] \<and>
   length [10, 20 :: int] \<le> data_index \<lparr>slot_id = 2, data_index = 2\<rparr> \<and>
   (\<exists>c s'. createItemComponentForRoot \<lparr>slot_id = 2, data_index = 2\<rparr> example_shrunk
        = Inr (c, s') \<and> iterationId c = None) \<and>
   (\<exists>cs s'. map_roots example_slots example_shrunk = Inr (cs, s') \<and>
      length cs = length example_slots)"
proof -
  have h1: "ids example_shrunk = Some [10, 20]"
    by code_simp
  have h2: "length [10, 20 :: int] \<le> data_index \<lparr>slot_id = 2, data_index = 2\<rparr>"
    by simp
  show ?thesis
    using h1 h2
      stale_slot_binds_undefined [OF h1, of "\<lparr>slot_id = 2, data_index = 2\<rparr>" example_slots]
    by blast
qed

text \<open>
  C4, the counterexample. After the teardown of a populated carousel, a replacement of
  \<open>ids\<close> followed by a turn of the event loop runs a second rebuild, which binds
  the five slots again.
\<close>

theorem teardown_is_final_counterexample:
  "rebuilds (ngOnDestroy example_ready) = 1 \<and>
   components (ngOnDestroy example_ready) = None \<and>
   rebuilds (run [NgOnChanges (Some (Some [10, 20])), Turn 0] (ngOnDestroy example_ready)) = 2 \<and>
   map iterationId (old_components
     (run [NgOnChanges (Some (Some [10, 20])), Turn 0] (ngOnDestroy example_ready))) =
     [Some 10, Some 20, None, Some 10, Some 20]"
  by code_simp

text \<open>
  C4, as amended. The claim has no reconciliation and no binding after teardown under
  any activity. The component keeps no record of having been destroyed and its engine
  handle stays bound, so a replacement of \<open>ids\<close> reported after \<open>ngOnDestroy\<close>
  starts the timer again and the next turn rebuilds: the counterexample above. What
  holds: \<open>ngOnDestroy\<close> completes the subject, and after it nothing is ever
  published again, whatever happens; it cancels the pending rebuild; it destroys every
  component held and holds none; and as long as no event asks for a reconciliation
  anew (\<open>ngAfterViewInit\<close>, or \<open>ngOnChanges\<close> with a change of \<open>ids\<close>), no rebuild
  runs, no component is created and the view container stays as teardown left it, which
  is empty.
\<close>

theorem teardown_is_final:
  "isStopped (ngOnDestroy s) \<and>
   published (run evs (ngOnDestroy s)) = published s \<and>
   timerId (reinitialize (ngOnDestroy s)) = None \<and>
   \<not> lastArgs (reinitialize (ngOnDestroy s)) \<and>
   components (ngOnDestroy s) = None \<and>
   (\<forall>c\<in>set (old_components s). ComponentDestroy (cid c) \<in> set (effects (ngOnDestroy s))) \<and>
   (wf s \<longrightarrow> viewContainer (ngOnDestroy s) = []) \<and>
   (list_all (\<lambda>e. \<not> requests_reconcile e) evs \<longrightarrow>
      rebuilds (run evs (ngOnDestroy s)) = rebuilds s \<and>
      components (run evs (ngOnDestroy s)) = None \<and>
      viewContainer (run evs (ngOnDestroy s)) = viewContainer (ngOnDestroy s) \<and>
      next_cid (run evs (ngOnDestroy s)) = next_cid s)"
proof -
  let ?d = "ngOnDestroy s"
  have f: "timerId (reinitialize ?d) = None" "\<not> lastArgs (reinitialize ?d)"
    "components ?d = None"
    "\<forall>c\<in>set (old_components s). ComponentDestroy (cid c) \<in> set (effects ?d)"
    using ngOnDestroy_fields [of s] by simp_all
  have st: "isStopped ?d" "published ?d = published s"
    using ngOnDestroy_subject [of s] by simp_all
  have p: "published (run evs ?d) = published s"
    using stopped_run [OF st(1), of evs] st(2) by simp
  have r0: "rebuilds ?d = rebuilds s" "next_cid ?d = next_cid s"
    using rebuilds_step [of NgOnDestroy s]
    by (simp_all add: ngOnDestroy_def destroy_eq reinitialize_cancel_def subject_complete_def
        log_def)
  have w: "wf s \<longrightarrow> viewContainer ?d = []"
    using wf_destroy [of s] f(3) by (auto simp: wf_def old_components_def)
  have q: "list_all (\<lambda>e. \<not> requests_reconcile e) evs \<longrightarrow>
      rebuilds (run evs ?d) = rebuilds s \<and> components (run evs ?d) = None \<and>
      viewContainer (run evs ?d) = viewContainer ?d \<and> next_cid (run evs ?d) = next_cid s"
    using torn_down_run [of evs ?d] f(1) f(3) r0 by simp
  show ?thesis using f st(1) p w q by blast
qed

theorem teardown_is_final_witness:
  "wf example_shrunk \<and> timerId (reinitialize example_shrunk) \<noteq> None \<and>
   list_all (\<lambda>e. \<not> requests_reconcile e)
     [Turn 0, Engine 3 example_slots True, IndexChanged, SlideTo 1 None, NgOnChanges None,
      Turn 5] \<and>
   viewContainer (ngOnDestroy example_shrunk) = [] \<and>
   rebuilds (run [Turn 0, Engine 3 example_slots True, IndexChanged, SlideTo 1 None,
      NgOnChanges None, Turn 5] (ngOnDestroy example_shrunk)) = rebuilds example_shrunk \<and>
   components (run [Turn 0, Engine 3 example_slots True, IndexChanged, SlideTo 1 None,
      NgOnChanges None, Turn 5] (ngOnDestroy example_shrunk)) = None \<and>
   published (run [Turn 0, Engine 3 example_slots True, IndexChanged, SlideTo 1 None,
      NgOnChanges None, Turn 5] (ngOnDestroy example_shrunk)) = published example_shrunk"
proof -
  have h1: "wf example_shrunk"
    by code_simp
  have h2: "timerId (reinitialize example_shrunk) \<noteq> None"
    by code_simp
  have h3: "list_all (\<lambda>e. \<not> requests_reconcile e)
     [Turn 0, Engine 3 example_slots True, IndexChanged, SlideTo 1 None, NgOnChanges None,
      Turn 5]"
    by simp
  show ?thesis
    using h1 h2 h3
      teardown_is_final [of example_shrunk
        "[Turn 0, Engine 3 example_slots True, IndexChanged, SlideTo 1 None, NgOnChanges None,
          Turn 5]"]
    by blast
qed

text \<open>
  C5. A burst of reconcile requests (replacements of \<open>ids\<close> after the view is attached)
  that falls within the debounce window runs no rebuild while it lasts, exactly one
  rebuild at the turn of the event loop that follows it, and none in the turns after
  that: the requests coalesce and the rebuild is on the trailing edge. The window is
  the rest of the synchronous turn, since the wait is zero.
\<close>

theorem burst_coalesces:
  assumes "swiper (run pre constructor)" "burst \<noteq> []" "list_all is_ids_change burst"
    "list_all is_turn quiet"
  shows "rebuilds (run (pre @ burst) constructor) = rebuilds (run pre constructor) \<and>
         rebuilds (run (pre @ burst @ [Turn d]) constructor) = Suc (rebuilds (run pre constructor)) \<and>
         rebuilds (run (pre @ burst @ Turn d # quiet) constructor) = Suc (rebuilds (run pre constructor))"
proof -
  let ?s = "run pre constructor"
  let ?b = "run burst ?s"
  have inv: "idle_or_due ?b"
    by (simp add: idle_or_due_run idle_or_due_constructor)
  have b: "rebuilds ?b = rebuilds ?s" "timerId (reinitialize ?b) \<noteq> None"
    using burst_pending [OF assms(1) assms(3)] assms(2) by simp_all
  have t: "rebuilds (turn d ?b) = Suc (rebuilds ?s)"
    using rebuilds_turn [OF inv, of d] b by simp
  have q: "rebuilds (run quiet (turn d ?b)) = rebuilds (turn d ?b)"
    using quiet_turns [of "turn d ?b" quiet] inv assms(4)
    by (simp add: idle_or_due_turn timer_after_turn)
  have r1: "run (pre @ burst) constructor = ?b" by (simp add: run_append)
  have r2: "run (pre @ burst @ [Turn d]) constructor = turn d ?b" by (simp add: run_append)
  have r3: "run (pre @ burst @ Turn d # quiet) constructor = run quiet (turn d ?b)"
    by (simp add: run_append)
  show ?thesis unfolding r1 r2 r3 using b t q by simp
qed

theorem burst_coalesces_witness:
  "swiper (run [Render example_slots, NgAfterViewInit, Turn 0] constructor) \<and>
   rebuilds (run ([Render example_slots, NgAfterViewInit, Turn 0] @
       [NgOnChanges (Some (Some [10, 20])), NgOnChanges (Some (Some [10, 20, 30]))])
       constructor) = rebuilds (run [Render example_slots, NgAfterViewInit, Turn 0] constructor) \<and>
   rebuilds (run ([Render example_slots, NgAfterViewInit, Turn 0] @
       [NgOnChanges (Some (Some [10, 20])), NgOnChanges (Some (Some [10, 20, 30]))] @
       [Turn 0]) constructor) =
     Suc (rebuilds (run [Render example_slots, NgAfterViewInit, Turn 0] constructor)) \<and>
   rebuilds (run ([Render example_slots, NgAfterViewInit, Turn 0] @
       [NgOnChanges (Some (Some [10, 20])), NgOnChanges (Some (Some [10, 20, 30]))] @
       Turn 0 # [Turn 5, Turn 7]) constructor) =
     Suc (rebuilds (run [Render example_slots, NgAfterViewInit, Turn 0] constructor))"
proof -
  have h1: "swiper (run [Render example_slots, NgAfterViewInit, Turn 0] constructor)"
    by code_simp
  have h2: "[NgOnChanges (Some (Some [10, 20])), NgOnChanges (Some (Some [10, 20, 30]))] \<noteq> []"
    by simp
  have h3: "list_all is_ids_change
      [NgOnChanges (Some (Some [10, 20])), NgOnChanges (Some (Some [10, 20, 30]))]"
    by simp
  have h4: "list_all is_turn [Turn 5, Turn 7]"
    by simp
  show ?thesis
    using h1 burst_coalesces [OF h1 h2 h3 h4, of 0] by blast
qed

text \<open>
  C6. For every index and speed, \<open>slideTo\<close> on a bound engine stops autoplay and only
  then issues \<open>slideToLoop\<close> with the same index and speed, and autoplay is off
  afterwards. Before the engine is bound the call raises and issues nothing.
\<close>

theorem slideTo_stops_autoplay_first:
  "(swiper s \<longrightarrow>
      (\<exists>s'. slideTo index speed s = Inr s' \<and>
            effects s' = effects s @ [AutoplayStop, SlideToLoop index speed] \<and>
            \<not> autoplay s')) \<and>
   (\<not> swiper s \<longrightarrow> slideTo index speed s = Inl TypeError)"
  by (simp add: slideTo_eq)

theorem slideTo_stops_autoplay_first_witness:
  "swiper (run [NgAfterViewInit, Engine 0 example_slots True] constructor) \<and>
   (\<exists>s'. slideTo 7 None (run [NgAfterViewInit, Engine 0 example_slots True] constructor) = Inr s' \<and>
         effects s' = effects (run [NgAfterViewInit, Engine 0 example_slots True] constructor) @
           [AutoplayStop, SlideToLoop 7 None] \<and>
         \<not> autoplay s') \<and>
   \<not> swiper constructor \<and> slideTo 7 None constructor = Inl TypeError"
proof -
  have h1: "swiper (run [NgAfterViewInit, Engine 0 example_slots True] constructor)"
    by code_simp
  have h2: "\<not> swiper constructor"
    by (simp add: constructor_def)
  show ?thesis
    using h1 h2
      slideTo_stops_autoplay_first [of
        "run [NgAfterViewInit, Engine 0 example_slots True] constructor" 7 None]
      slideTo_stops_autoplay_first [of constructor 7 None]
    by blast
qed

text \<open>
  C7. A rebuild that returns has logged, in this order: the unbinding of every
  component it held, the query for the slots, the binding of one component per slot,
  and the change detection of the host. A rebuild that raises has logged the
  unbinding and the query and holds no component. So a component is never created
  before the old ones are destroyed.
\<close>

theorem rebuild_order:
  "(reinitializeImpl s = Inr s' \<longrightarrow>
      (\<exists>us bs. effects s' = effects s @ us @ [QuerySlots] @ bs @ [HostDetectChanges] \<and>
         list_all is_unbind us \<and> list_all is_bind bs \<and>
         (\<forall>c\<in>set (old_components s). ComponentDestroy (cid c) \<in> set us) \<and>
         (\<forall>c\<in>set (old_components s'). CreateComponent (cid c) \<in> set bs) \<and>
         length (old_components s') = length (roots s))) \<and>
   (reinitializeImpl s = Inl (e, s') \<longrightarrow>
      (\<exists>us. effects s' = effects s @ us @ [QuerySlots] \<and> list_all is_unbind us \<and>
         (\<forall>c\<in>set (old_components s). ComponentDestroy (cid c) \<in> set us) \<and>
         components s' = None))"
proof (cases "ids s")
  case None
  let ?us = "unbind_effects (old_components s) (viewContainer s)"
  have u: "list_all is_unbind ?us"
    "\<forall>c\<in>set (old_components s). ComponentDestroy (cid c) \<in> set ?us"
    by (simp_all add: unbind_effects_are_unbind unbind_effects_destroy)
  show ?thesis
  proof (cases "roots s = []")
    case True
    have "reinitializeImpl s = Inr s' \<longrightarrow>
      effects s' = effects s @ ?us @ [QuerySlots] @ [] @ [HostDetectChanges] \<and>
      old_components s' = []"
      using None True by (auto simp: reinitializeImpl_undefined old_components_def)
    moreover have "reinitializeImpl s \<noteq> Inl (e, s')"
      using None True by (simp add: reinitializeImpl_undefined)
    ultimately show ?thesis using u True
      by (intro conjI impI exI [of _ ?us] exI [of _ "[]"]) simp_all
  next
    case False
    have "reinitializeImpl s = Inl (e, s') \<longrightarrow>
      effects s' = effects s @ ?us @ [QuerySlots] \<and> components s' = None"
      using None False by (auto simp: reinitializeImpl_undefined)
    moreover have "reinitializeImpl s \<noteq> Inr s'"
      using None False by (simp add: reinitializeImpl_undefined)
    ultimately show ?thesis using u by blast
  qed
next
  case (Some xs)
  let ?us = "unbind_effects (old_components s) (viewContainer s)"
  let ?bs = "bind_effects (roots s) xs (next_cid s)"
  have u: "list_all is_unbind ?us"
    "\<forall>c\<in>set (old_components s). ComponentDestroy (cid c) \<in> set ?us"
    by (simp_all add: unbind_effects_are_unbind unbind_effects_destroy)
  have b: "list_all is_bind ?bs"
    "\<forall>c\<in>set (new_components (roots s) xs (next_cid s)). CreateComponent (cid c) \<in> set ?bs"
    by (simp_all add: bind_effects_are_bind bind_effects_create)
  have "reinitializeImpl s = Inr s' \<longrightarrow>
      effects s' = effects s @ ?us @ [QuerySlots] @ ?bs @ [HostDetectChanges] \<and>
      old_components s' = new_components (roots s) xs (next_cid s)"
    using Some by (auto simp: reinitializeImpl_eq old_components_def)
  moreover have "reinitializeImpl s \<noteq> Inl (e, s')"
    using Some by (simp add: reinitializeImpl_eq)
  ultimately show ?thesis using u b
    by (intro conjI impI exI [of _ ?us] exI [of _ ?bs]) (simp_all add: length_new_components)
qed

theorem rebuild_order_witness:
  "reinitializeImpl example_ready = Inr (settle_state (reinitializeImpl example_ready)) \<and>
   (\<exists>us bs. effects (settle_state (reinitializeImpl example_ready)) =
        effects example_ready @ us @ [QuerySlots] @ bs @ [HostDetectChanges] \<and>
      list_all is_unbind us \<and> list_all is_bind bs \<and>
      (\<forall>c\<in>set (old_components example_ready). ComponentDestroy (cid c) \<in> set us) \<and>
      (\<forall>c\<in>set (old_components (settle_state (reinitializeImpl example_ready))).
          CreateComponent (cid c) \<in> set bs)) \<and>
   reinitializeImpl example_unset =
     Inl (TypeError, settle_state (reinitializeImpl example_unset)) \<and>
   (\<exists>us. effects (settle_state (reinitializeImpl example_unset)) =
        effects example_unset @ us @ [QuerySlots] \<and>
      components (settle_state (reinitializeImpl example_unset)) = None)"
proof -
  have h1: "reinitializeImpl example_ready = Inr (settle_state (reinitializeImpl example_ready))"
    by code_simp
  have h2: "reinitializeImpl example_unset =
      Inl (TypeError, settle_state (reinitializeImpl example_unset))"
    by code_simp
  show ?thesis
    using h1 h2
      rebuild_order [of example_ready "settle_state (reinitializeImpl example_ready)"
        TypeError]
      rebuild_order [of example_unset "settle_state (reinitializeImpl example_unset)"
        TypeError]
    by blast
qed

text \<open>
  C8. Before the view is attached nothing asks for a reconciliation: whatever happens
  (replacements of \<open>ids\<close> included), the engine handle stays unbound, no timer is
  started and no rebuild runs. The attachment binds the handle and asks once, so the
  first population is the single rebuild of the turn that follows it, whatever
  replacements arrive in between. A replacement of \<open>ids\<close> is a request exactly when
  the handle is bound.
\<close>

theorem first_population_at_attachment:
  "(list_all not_attach early \<longrightarrow>
      \<not> swiper (run early constructor) \<and>
      timerId (reinitialize (run early constructor)) = None \<and>
      rebuilds (run early constructor) = 0 \<and>
      (list_all is_ids_change burst \<longrightarrow>
         rebuilds (run (early @ NgAfterViewInit # burst) constructor) = 0 \<and>
         rebuilds (run (early @ NgAfterViewInit # burst @ [Turn d]) constructor) = 1)) \<and>
   (\<not> swiper s \<longrightarrow> reinitialize (step (NgOnChanges chg) s) = reinitialize s) \<and>
   (swiper s \<longrightarrow> timerId (reinitialize (step (NgOnChanges (Some v)) s)) \<noteq> None \<and>
      lastArgs (reinitialize (step (NgOnChanges (Some v)) s)))"
proof -
  let ?e = "run early constructor"
  have c: "\<not> swiper constructor" "timerId (reinitialize constructor) = None"
    "rebuilds constructor = 0"
    by (simp_all add: constructor_def debounce_def rebuilds_def)
  have inv: "idle_or_due ?e"
    by (simp add: idle_or_due_run idle_or_due_constructor)
  {
    assume e: "list_all not_attach early"
    have e1: "\<not> swiper ?e" "timerId (reinitialize ?e) = None" "rebuilds ?e = 0"
      using early_run [OF e c(1) c(2)] c(3) by simp_all
    {
      assume b: "list_all is_ids_change burst"
      have sa: "swiper (step NgAfterViewInit ?e)"
        by (simp add: ngAfterViewInit_def reinitialize_call_def)
      have "rebuilds (run burst (step NgAfterViewInit ?e)) = rebuilds (step NgAfterViewInit ?e)"
        using burst_pending [OF sa b] by simp
      moreover have "rebuilds (step NgAfterViewInit ?e) = rebuilds ?e"
        by (rule rebuilds_step) simp
      ultimately have b0: "rebuilds (run (early @ NgAfterViewInit # burst) constructor) = 0"
        using e1(3) by (simp add: run_append)
      have "rebuilds (run (early @ NgAfterViewInit # burst @ [Turn d]) constructor) = 1"
        using attach_then_turn [OF inv b, of d] e1(3) by (simp add: run_append)
      note b0 this
    }
    note e1 this
  }
  moreover have "\<not> swiper s \<longrightarrow> reinitialize (step (NgOnChanges chg) s) = reinitialize s"
    by (cases chg) (simp_all add: ngOnChanges_def)
  moreover have "swiper s \<longrightarrow> timerId (reinitialize (step (NgOnChanges (Some v)) s)) \<noteq> None \<and>
      lastArgs (reinitialize (step (NgOnChanges (Some v)) s))"
    by (simp add: ngOnChanges_def reinitialize_call_def debounced_call_def Let_def)
  ultimately show ?thesis by blast
qed

theorem first_population_at_attachment_witness:
  "list_all not_attach [Render example_slots, NgOnChanges (Some (Some [10, 20, 30])), Turn 3] \<and>
   list_all is_ids_change [NgOnChanges (Some (Some [10, 20]))] \<and>
   rebuilds (run [Render example_slots, NgOnChanges (Some (Some [10, 20, 30])), Turn 3]
      constructor) = 0 \<and>
   rebuilds (run ([Render example_slots, NgOnChanges (Some (Some [10, 20, 30])), Turn 3] @
      NgAfterViewInit # [NgOnChanges (Some (Some [10, 20]))] @ [Turn 0]) constructor) = 1 \<and>
   \<not> swiper constructor \<and>
   reinitialize (step (NgOnChanges (Some (Some [10]))) constructor) = reinitialize constructor \<and>
   swiper (step NgAfterViewInit constructor) \<and>
   timerId (reinitialize (step (NgOnChanges (Some (Some [10]))) (step NgAfterViewInit constructor)))
     \<noteq> None"
proof -
  have h1: "list_all not_attach
      [Render example_slots, NgOnChanges (Some (Some [10, 20, 30])), Turn 3]"
    by simp
  have h2: "list_all is_ids_change [NgOnChanges (Some (Some [10, 20]))]"
    by simp
  have h3: "\<not> swiper constructor"
    by (simp add: constructor_def)
  have h4: "swiper (step NgAfterViewInit constructor)"
    by (simp add: ngAfterViewInit_def reinitialize_call_def)
  show ?thesis
    using h1 h2 h3 h4
      first_population_at_attachment [of
        "[Render example_slots, NgOnChanges (Some (Some [10, 20, 30])), Turn 3]"
        "[NgOnChanges (Some (Some [10, 20]))]" 0 constructor "Some (Some [10])" "Some [10]"]
      first_population_at_attachment [of "[]" "[]" 0 "step NgAfterViewInit constructor"
        "Some (Some [10])" "Some [10]"]
    by blast
qed

text \<open>
  C10. The debounced rebuild is built with no wait argument, so its wait is zero, and
  nothing that happens to the component changes it. Two requests made in the same
  synchronous turn coalesce into one rebuild; a request is served at the very next turn
  of the event loop, however little time has passed; two requests separated by a turn
  give two rebuilds.
\<close>

theorem debounce_wait_is_zero:
  "reinitialize constructor = debounce None \<and> wait (debounce None) = 0 \<and>
   wait (reinitialize (run evs constructor)) = 0 \<and>
   (swiper (run pre constructor) \<longrightarrow>
      rebuilds (run (pre @ [NgOnChanges (Some v), NgOnChanges (Some v'), Turn d]) constructor) =
        Suc (rebuilds (run pre constructor)) \<and>
      rebuilds (run (pre @ [NgOnChanges (Some v), Turn d]) constructor) =
        Suc (rebuilds (run pre constructor)) \<and>
      rebuilds (run (pre @ [NgOnChanges (Some v), Turn d, NgOnChanges (Some v'), Turn d'])
        constructor) = Suc (Suc (rebuilds (run pre constructor))))"
proof -
  let ?s = "run pre constructor"
  have c: "reinitialize constructor = debounce None" "wait (debounce None) = 0"
    by (simp_all add: constructor_def debounce_def)
  have inv: "idle_or_due ?s"
    by (simp add: idle_or_due_run idle_or_due_constructor)
  {
    assume sw: "swiper ?s"
    have one: "rebuilds (run [NgOnChanges (Some v), Turn d] ?s) = Suc (rebuilds ?s)"
      "idle_or_due (run [NgOnChanges (Some v), Turn d] ?s)"
      "swiper (run [NgOnChanges (Some v), Turn d] ?s)"
      using request_then_turn [OF inv sw, of v d] by simp_all
    have two: "rebuilds (run [NgOnChanges (Some v'), Turn d'] (run [NgOnChanges (Some v), Turn d] ?s))
        = Suc (Suc (rebuilds ?s))"
      using request_then_turn [OF one(2) one(3), of v' d'] one(1) by simp
    have same: "rebuilds (run (pre @ [NgOnChanges (Some v), NgOnChanges (Some v')] @ [Turn d])
        constructor) = Suc (rebuilds ?s)"
      using burst_then_turn [OF inv sw, of "[NgOnChanges (Some v), NgOnChanges (Some v')]" d]
      by (simp add: run_append)
    have "rebuilds (run (pre @ [NgOnChanges (Some v), NgOnChanges (Some v'), Turn d]) constructor) =
        Suc (rebuilds ?s) \<and>
      rebuilds (run (pre @ [NgOnChanges (Some v), Turn d]) constructor) = Suc (rebuilds ?s) \<and>
      rebuilds (run (pre @ [NgOnChanges (Some v), Turn d, NgOnChanges (Some v'), Turn d'])
        constructor) = Suc (Suc (rebuilds ?s))"
      using one(1) two same by (simp add: run_append)
  }
  then show ?thesis using c wait_run [of evs] by blast
qed

theorem debounce_wait_is_zero_witness:
  "swiper (run [Render example_slots, NgAfterViewInit] constructor) \<and>
   rebuilds (run ([Render example_slots, NgAfterViewInit] @
      [NgOnChanges (Some (Some [10])), NgOnChanges (Some (Some [10, 20])), Turn 0]) constructor) =
     Suc (rebuilds (run [Render example_slots, NgAfterViewInit] constructor)) \<and>
   rebuilds (run ([Render example_slots, NgAfterViewInit] @
      [NgOnChanges (Some (Some [10])), Turn 0, NgOnChanges (Some (Some [10, 20])), Turn 0])
      constructor) =
     Suc (Suc (rebuilds (run [Render example_slots, NgAfterViewInit] constructor)))"
proof -
  have h: "swiper (run [Render example_slots, NgAfterViewInit] constructor)"
    by code_simp
  show ?thesis
    using h debounce_wait_is_zero [of "[]" "[Render example_slots, NgAfterViewInit]"
        "Some [10]" "Some [10, 20]" 0 0]
    by blast
qed

end
